theory Spec2Isabelle
  imports Complex_Main "HOL-Library.Multiset"
begin

section \<open>Data model\<close>

text \<open>
  A box is the dictionary read from one JSON array element: a \<open>tag\<close> string and four
  numeric coordinates. Coordinates are exact rational numbers: every JSON number literal
  denotes one, and Python's unbounded integers are among them, so the arithmetic of
  \<open>calculate_overlap\<close> on integer coordinates is the arithmetic below. The rounding of
  binary floating point is outside this model.
\<close>

record box =
  tag :: string
  x1 :: rat
  y1 :: rat
  x2 :: rat
  y2 :: rat

datatype py_error = ZeroDivisionError | KeyError

text \<open>Python's \<open>a / b\<close>: raises \<open>ZeroDivisionError\<close> when the divisor is zero.\<close>

definition truediv :: "rat \<Rightarrow> rat \<Rightarrow> py_error + rat" where
  "truediv a b = (if b = 0 then Inl ZeroDivisionError else Inr (a / b))"

section \<open>Overlap of two boxes (\<open>calculate_overlap\<close>)\<close>

definition calculate_overlap :: "box \<Rightarrow> box \<Rightarrow> py_error + rat" where
  "calculate_overlap box1 box2 =
     (let x1_start = x1 box1; y1_start = y1 box1; x1_end = x2 box1; y1_end = y2 box1;
          x2_start = x1 box2; y2_start = y1 box2; x2_end = x2 box2; y2_end = y2 box2;
          overlap_left = max x1_start x2_start;
          overlap_top = max y1_start y2_start;
          overlap_right = min x1_end x2_end;
          overlap_bottom = min y1_end y2_end
      in if overlap_right \<le> overlap_left \<or> overlap_bottom \<le> overlap_top then Inr 0
         else
           let overlap_area = (overlap_right - overlap_left) * (overlap_bottom - overlap_top);
               area1 = (x1_end - x1_start) * (y1_end - y1_start);
               area2 = (x2_end - x2_start) * (y2_end - y2_start);
               total_area = area1 + area2 - overlap_area
           in if total_area > 0 then truediv overlap_area total_area else Inr 0)"

section \<open>Matching the boxes of one element type (\<open>count_correct_predictions\<close>)\<close>

text \<open>
  \<open>str.lower\<close> on the characters of a tag. A \<open>char\<close> is a byte; the upper-case
  ASCII letters are mapped to their lower-case letters and every other byte is kept.
\<close>

definition char_lower :: "char \<Rightarrow> char" where
  "char_lower c =
     (let n = (of_char c :: nat) in if 65 \<le> n \<and> n \<le> 90 then char_of (n + 32) else c)"

definition lower :: "string \<Rightarrow> string" where
  "lower s = map char_lower s"

text \<open>
  The state of the matching loops: \<open>correct_count\<close> and the list \<open>used_gt_boxes\<close> of the
  indices of the ground-truth boxes already matched.
\<close>

type_synonym match_state = "int \<times> nat list"

text \<open>
  The inner loop, over \<open>enumerate(gt_boxes)\<close>, for one predicted box: an index already
  in \<open>used_gt_boxes\<close> is skipped (\<open>continue\<close>); the first remaining box whose overlap is at
  least one half is counted and recorded, and the loop ends there (\<open>break\<close>).
\<close>

fun scan_gt_boxes :: "box \<Rightarrow> (nat \<times> box) list \<Rightarrow> match_state \<Rightarrow> py_error + match_state" where
  "scan_gt_boxes pred_box [] st = Inr st"
| "scan_gt_boxes pred_box ((i, gt_box) # rest) (correct_count, used_gt_boxes) =
     (if i \<in> set used_gt_boxes then scan_gt_boxes pred_box rest (correct_count, used_gt_boxes)
      else
        (case calculate_overlap gt_box pred_box of
           Inl e \<Rightarrow> Inl e
         | Inr overlap \<Rightarrow>
             if overlap \<ge> 1 / 2 then Inr (correct_count + 1, used_gt_boxes @ [i])
             else scan_gt_boxes pred_box rest (correct_count, used_gt_boxes)))"

text \<open>The outer loop, over the predicted boxes in their order.\<close>

fun match_pred_boxes :: "box list \<Rightarrow> box list \<Rightarrow> match_state \<Rightarrow> py_error + match_state" where
  "match_pred_boxes [] gt_boxes st = Inr st"
| "match_pred_boxes (pred_box # rest) gt_boxes st =
     (case scan_gt_boxes pred_box (enumerate 0 gt_boxes) st of
        Inl e \<Rightarrow> Inl e
      | Inr st' \<Rightarrow> match_pred_boxes rest gt_boxes st')"

definition count_correct_predictions ::
  "box list \<Rightarrow> box list \<Rightarrow> string \<Rightarrow> py_error + (int \<times> int \<times> int)" where
  "count_correct_predictions ground_truth_boxes predicted_boxes element_type =
     (let gt_boxes = filter (\<lambda>box. lower (tag box) = lower element_type) ground_truth_boxes;
          pred_boxes = filter (\<lambda>box. lower (tag box) = lower element_type) predicted_boxes
      in case match_pred_boxes pred_boxes gt_boxes (0, []) of
           Inl e \<Rightarrow> Inl e
         | Inr (correct_count, used_gt_boxes) \<Rightarrow>
             Inr (int (length gt_boxes), int (length pred_boxes), correct_count))"

section \<open>Totals over the files and the scores (\<open>main\<close>)\<close>

record totals =
  ground_truth_total :: int
  predicted_total :: int
  correct_total :: int

type_synonym results = "string \<rightharpoonup> totals"

definition element_types :: "string list" where
  "element_types = [''button'', ''input'', ''radio'', ''dropdown'']"

definition init_results :: results where
  "init_results =
     fold (\<lambda>element_type results. results(element_type \<mapsto>
            \<lparr>ground_truth_total = 0, predicted_total = 0, correct_total = 0\<rparr>))
       element_types Map.empty"

definition endswith :: "string \<Rightarrow> string \<Rightarrow> bool" where
  "endswith s suffix =
     (length suffix \<le> length s \<and> drop (length s - length suffix) s = suffix)"

text \<open>
  The ground-truth folder is the list of its file names, in the order \<open>os.listdir\<close>
  gives them, each with the boxes \<open>json.load\<close> reads from that file. The prediction
  folder is a partial map from file names to boxes: a name outside its domain is a
  path that does not exist.
\<close>

type_synonym gt_folder = "(string \<times> box list) list"
type_synonym pred_folder = "string \<rightharpoonup> box list"

definition json_files :: "gt_folder \<Rightarrow> gt_folder" where
  "json_files gt_files = filter (\<lambda>(filename, data). endswith filename ''.json'') gt_files"

text \<open>
  The loop over the element types for one pair of files. \<open>results[element_type]\<close> raises
  \<open>KeyError\<close> for a key the dictionary does not have.
\<close>

fun count_file :: "box list \<Rightarrow> box list \<Rightarrow> string list \<Rightarrow> results \<Rightarrow> py_error + results" where
  "count_file ground_truth_data prediction_data [] results = Inr results"
| "count_file ground_truth_data prediction_data (element_type # rest) results =
     (case count_correct_predictions ground_truth_data prediction_data element_type of
        Inl e \<Rightarrow> Inl e
      | Inr (gt_count, pred_count, correct_count) \<Rightarrow>
          (case results element_type of
             None \<Rightarrow> Inl KeyError
           | Some t \<Rightarrow>
               count_file ground_truth_data prediction_data rest
                 (results(element_type \<mapsto>
                    \<lparr>ground_truth_total = ground_truth_total t + gt_count,
                     predicted_total = predicted_total t + pred_count,
                     correct_total = correct_total t + correct_count\<rparr>))))"

text \<open>
  The loop over the files: a file with no prediction file is skipped after a warning.
\<close>

fun process_files :: "pred_folder \<Rightarrow> gt_folder \<Rightarrow> results \<Rightarrow> py_error + results" where
  "process_files pred_dir [] results = Inr results"
| "process_files pred_dir ((filename, ground_truth_data) # rest) results =
     (case pred_dir filename of
        None \<Rightarrow> process_files pred_dir rest results
      | Some prediction_data \<Rightarrow>
          (case count_file ground_truth_data prediction_data element_types results of
             Inl e \<Rightarrow> Inl e
           | Inr results' \<Rightarrow> process_files pred_dir rest results'))"

text \<open>The scores of one element type, from its three totals.\<close>

definition calculate_scores :: "totals \<Rightarrow> py_error + (rat \<times> rat \<times> rat)" where
  "calculate_scores t =
     (let gt_total = ground_truth_total t;
          pred_total = predicted_total t;
          correct_total = correct_total t
      in case (if pred_total > 0 then truediv (of_int correct_total) (of_int pred_total)
               else Inr 0) of
           Inl e \<Rightarrow> Inl e
         | Inr precision \<Rightarrow>
             (case (if gt_total > 0 then truediv (of_int correct_total) (of_int gt_total)
                    else Inr 0) of
                Inl e \<Rightarrow> Inl e
              | Inr recall \<Rightarrow>
                  (case (if precision + recall > 0
                         then truediv (2 * precision * recall) (precision + recall)
                         else Inr 0) of
                     Inl e \<Rightarrow> Inl e
                   | Inr f1_score \<Rightarrow> Inr (precision, recall, f1_score))))"

text \<open>
  One block of the printed report: the element type, its three totals and its three
  scores, as values (the report prints the scores with two decimals).
\<close>

record report_block =
  element :: string
  gt_total :: int
  pred_total :: int
  correct :: int
  precision :: rat
  recall :: rat
  f1_score :: rat

fun print_results :: "string list \<Rightarrow> results \<Rightarrow> py_error + report_block list" where
  "print_results [] results = Inr []"
| "print_results (element_type # rest) results =
     (case results element_type of
        None \<Rightarrow> Inl KeyError
      | Some t \<Rightarrow>
          (case calculate_scores t of
             Inl e \<Rightarrow> Inl e
           | Inr (p, r, f) \<Rightarrow>
               (case print_results rest results of
                  Inl e \<Rightarrow> Inl e
                | Inr blocks \<Rightarrow>
                    Inr (\<lparr>element = element_type,
                          gt_total = ground_truth_total t,
                          pred_total = predicted_total t,
                          correct = correct_total t,
                          precision = p, recall = r, f1_score = f\<rparr> # blocks))))"

definition main :: "gt_folder \<Rightarrow> pred_folder \<Rightarrow> py_error + report_block list" where
  "main gt_dir pred_dir =
     (case process_files pred_dir (json_files gt_dir) init_results of
        Inl e \<Rightarrow> Inl e
      | Inr results \<Rightarrow> print_results element_types results)"

section \<open>The specification's definitions\<close>

text \<open>
  The intersection rectangle of two boxes, the area of a box and the area of the union,
  as the specification describes them.
\<close>

definition inter_width :: "box \<Rightarrow> box \<Rightarrow> rat" where
  "inter_width a b = min (x2 a) (x2 b) - max (x1 a) (x1 b)"

definition inter_height :: "box \<Rightarrow> box \<Rightarrow> rat" where
  "inter_height a b = min (y2 a) (y2 b) - max (y1 a) (y1 b)"

definition box_area :: "box \<Rightarrow> rat" where
  "box_area a = (x2 a - x1 a) * (y2 a - y1 a)"

definition union_area :: "box \<Rightarrow> box \<Rightarrow> rat" where
  "union_area a b = box_area a + box_area b - inter_width a b * inter_height a b"

text \<open>
  The Overlap Calculator of the specification: zero for an empty or inverted
  intersection rectangle, zero for a union of area zero, and the intersection over the
  union otherwise.
\<close>

definition spec_overlap :: "box \<Rightarrow> box \<Rightarrow> rat" where
  "spec_overlap a b =
     (if inter_width a b \<le> 0 \<or> inter_height a b \<le> 0 then 0
      else if union_area a b = 0 then 0
      else inter_width a b * inter_height a b / union_area a b)"

text \<open>
  The Category Matcher of the specification. A box belongs to a category when its tag
  equals the category up to case. For one predicted box, the first-fit candidate is the
  least index of a ground-truth box that is not consumed and overlaps the predicted box
  by at least one half. The greedy pass takes the predicted boxes in order, consumes the
  candidate of each one that has a candidate, and counts them.
\<close>

definition tag_matches :: "string \<Rightarrow> box \<Rightarrow> bool" where
  "tag_matches category b = (lower (tag b) = lower category)"

definition spec_first_fit :: "box list \<Rightarrow> nat set \<Rightarrow> box \<Rightarrow> nat option" where
  "spec_first_fit gts consumed p =
     List.find (\<lambda>i. i \<notin> consumed \<and> 1 / 2 \<le> spec_overlap p (gts ! i)) [0..<length gts]"

fun spec_greedy :: "box list \<Rightarrow> box list \<Rightarrow> nat set \<Rightarrow> nat" where
  "spec_greedy gts [] consumed = 0"
| "spec_greedy gts (p # ps) consumed =
     (case spec_first_fit gts consumed p of
        None \<Rightarrow> spec_greedy gts ps consumed
      | Some i \<Rightarrow> Suc (spec_greedy gts ps (insert i consumed)))"

definition spec_match :: "box list \<Rightarrow> box list \<Rightarrow> string \<Rightarrow> int \<times> int \<times> int" where
  "spec_match ground_truth predicted category =
     (let g = filter (tag_matches category) ground_truth;
          p = filter (tag_matches category) predicted
      in (int (length g), int (length p), int (spec_greedy g p {})))"

text \<open>
  The Corpus Aggregator of the specification. The pairs of files that are processed are
  the ground-truth files that have a prediction file, in the order of the ground-truth
  files. The totals of a category are the sums, over these pairs, of the three counts of
  the Category Matcher. Precision, recall and F1 are computed from the totals, each one
  being 0 where its divisor is not positive.
\<close>

fun file_pairs :: "pred_folder \<Rightarrow> gt_folder \<Rightarrow> (box list \<times> box list) list" where
  "file_pairs pred_dir [] = []"
| "file_pairs pred_dir ((filename, ground_truth) # rest) =
     (case pred_dir filename of
        None \<Rightarrow> file_pairs pred_dir rest
      | Some predicted \<Rightarrow> (ground_truth, predicted) # file_pairs pred_dir rest)"

definition spec_totals :: "(box list \<times> box list) list \<Rightarrow> string \<Rightarrow> totals" where
  "spec_totals pairs category =
     \<lparr>ground_truth_total = sum_list (map (\<lambda>(g, p). fst (spec_match g p category)) pairs),
      predicted_total = sum_list (map (\<lambda>(g, p). fst (snd (spec_match g p category))) pairs),
      correct_total = sum_list (map (\<lambda>(g, p). snd (snd (spec_match g p category))) pairs)\<rparr>"

definition spec_precision :: "totals \<Rightarrow> rat" where
  "spec_precision t =
     (if predicted_total t > 0 then of_int (correct_total t) / of_int (predicted_total t) else 0)"

definition spec_recall :: "totals \<Rightarrow> rat" where
  "spec_recall t =
     (if ground_truth_total t > 0 then of_int (correct_total t) / of_int (ground_truth_total t)
      else 0)"

definition spec_f1 :: "totals \<Rightarrow> rat" where
  "spec_f1 t =
     (if spec_precision t + spec_recall t > 0
      then 2 * spec_precision t * spec_recall t / (spec_precision t + spec_recall t)
      else 0)"

definition spec_block :: "string \<Rightarrow> totals \<Rightarrow> report_block" where
  "spec_block category t =
     \<lparr>element = category,
      gt_total = ground_truth_total t,
      pred_total = predicted_total t,
      correct = correct_total t,
      precision = spec_precision t,
      recall = spec_recall t,
      f1_score = spec_f1 t\<rparr>"

definition spec_aggregate :: "gt_folder \<Rightarrow> pred_folder \<Rightarrow> report_block list" where
  "spec_aggregate gt_dir pred_dir =
     map (\<lambda>category. spec_block category
            (spec_totals (file_pairs pred_dir (json_files gt_dir)) category))
       element_types"

section \<open>Properties of the overlap\<close>

lemma inter_area_le_left:
  assumes w: "0 < inter_width a b" and h: "0 < inter_height a b"
  shows "inter_width a b * inter_height a b \<le> box_area a"
proof -
  have "inter_width a b \<le> x2 a - x1 a" "inter_height a b \<le> y2 a - y1 a"
    by (simp_all add: inter_width_def inter_height_def min_def max_def)
  then show ?thesis
    unfolding box_area_def using w h by (intro mult_mono) simp_all
qed

lemma inter_area_le_right:
  assumes w: "0 < inter_width a b" and h: "0 < inter_height a b"
  shows "inter_width a b * inter_height a b \<le> box_area b"
proof -
  have "inter_width a b \<le> x2 b - x1 b" "inter_height a b \<le> y2 b - y1 b"
    by (simp_all add: inter_width_def inter_height_def min_def max_def)
  then show ?thesis
    unfolding box_area_def using w h by (intro mult_mono) simp_all
qed

lemma union_area_ge_inter:
  assumes w: "0 < inter_width a b" and h: "0 < inter_height a b"
  shows "inter_width a b * inter_height a b \<le> union_area a b"
proof -
  define i where "i = inter_width a b * inter_height a b"
  have "i \<le> box_area a" "i \<le> box_area b"
    unfolding i_def by (rule inter_area_le_left [OF w h], rule inter_area_le_right [OF w h])
  then have "i \<le> box_area a + box_area b - i" by linarith
  then show ?thesis by (simp add: union_area_def i_def)
qed

lemma union_area_pos:
  assumes w: "0 < inter_width a b" and h: "0 < inter_height a b"
  shows "0 < union_area a b"
proof -
  have "0 < inter_width a b * inter_height a b" using w h by simp
  with union_area_ge_inter [OF w h] show ?thesis by simp
qed

text \<open>
  The source's function returns the specification's overlap and never raises: on the
  branch that divides, the divisor is positive.
\<close>

lemma calculate_overlap_eq: "calculate_overlap a b = Inr (spec_overlap a b)"
proof (cases "inter_width a b \<le> 0 \<or> inter_height a b \<le> 0")
  case True
  then have "calculate_overlap a b = Inr 0"
    by (auto simp: calculate_overlap_def inter_width_def inter_height_def Let_def)
  with True show ?thesis by (simp add: spec_overlap_def)
next
  case False
  then have w: "0 < inter_width a b" and h: "0 < inter_height a b" by simp_all
  have ne: "\<not> (min (x2 a) (x2 b) \<le> max (x1 a) (x1 b) \<or> min (y2 a) (y2 b) \<le> max (y1 a) (y1 b))"
    using w h by (simp add: inter_width_def inter_height_def not_le)
  have pos: "0 < union_area a b" by (rule union_area_pos [OF w h])
  have "calculate_overlap a b = truediv (inter_width a b * inter_height a b) (union_area a b)"
    using ne pos
    by (simp add: calculate_overlap_def Let_def inter_width_def inter_height_def
        union_area_def box_area_def)
  then show ?thesis using pos False by (simp add: truediv_def spec_overlap_def)
qed




lemma spec_overlap_commute: "spec_overlap a b = spec_overlap b a"
  by (simp add: spec_overlap_def union_area_def inter_width_def inter_height_def
      min.commute max.commute add.commute)









section \<open>Properties of the matcher\<close>

lemma scan_gt_boxes_find:
  "scan_gt_boxes p (enumerate k xs) (c, used) =
     (case List.find (\<lambda>i. i \<notin> set used \<and> 1 / 2 \<le> spec_overlap p (xs ! (i - k))) [k..<k + length xs] of
        None \<Rightarrow> Inr (c, used)
      | Some i \<Rightarrow> Inr (c + 1, used @ [i]))"
proof (induction xs arbitrary: k)
  case Nil
  then show ?case by simp
next
  case (Cons x xs)
  define rest where
    "rest = List.find (\<lambda>i. i \<notin> set used \<and> 1 / 2 \<le> spec_overlap p (xs ! (i - Suc k)))
              [Suc k..<Suc k + length xs]"
  have upt: "[k..<k + length (x # xs)] = k # [Suc k..<Suc k + length xs]"
    using upt_conv_Cons [of k "Suc (k + length xs)"] by (simp del: upt_Suc)
  have tl: "List.find (\<lambda>i. i \<notin> set used \<and> 1 / 2 \<le> spec_overlap p ((x # xs) ! (i - k)))
              [Suc k..<Suc k + length xs] = rest"
    unfolding rest_def by (rule find_cong) (auto simp: nth_Cons' Suc_diff_le)
  have find: "List.find (\<lambda>i. i \<notin> set used \<and> 1 / 2 \<le> spec_overlap p ((x # xs) ! (i - k)))
                [k..<k + length (x # xs)] =
              (if k \<notin> set used \<and> 1 / 2 \<le> spec_overlap p x then Some k else rest)"
    unfolding upt by (simp only: List.find.simps tl diff_self_eq_0 nth_Cons_0)
  have ih: "scan_gt_boxes p (enumerate (Suc k) xs) (c, used) =
              (case rest of None \<Rightarrow> Inr (c, used) | Some i \<Rightarrow> Inr (c + 1, used @ [i]))"
    unfolding rest_def by (rule Cons.IH)
  show ?case
    unfolding find
    by (simp add: ih calculate_overlap_eq spec_overlap_commute [of x p])
qed

lemma scan_gt_boxes_first_fit:
  "scan_gt_boxes p (enumerate 0 gts) (c, used) =
     (case spec_first_fit gts (set used) p of
        None \<Rightarrow> Inr (c, used)
      | Some i \<Rightarrow> Inr (c + 1, used @ [i]))"
  using scan_gt_boxes_find [of p 0 gts c used] by (simp add: spec_first_fit_def)

lemma spec_first_fit_Some:
  assumes "spec_first_fit gts consumed p = Some i"
  shows "i < length gts" and "i \<notin> consumed" and "1 / 2 \<le> spec_overlap p (gts ! i)"
  using assms by (auto simp: spec_first_fit_def find_Some_iff)

lemma match_pred_boxes_greedy:
  "\<exists>ys. match_pred_boxes ps gts (c, used) =
          Inr (c + int (spec_greedy gts ps (set used)), used @ ys) \<and>
        length ys = spec_greedy gts ps (set used) \<and> length ys \<le> length ps \<and>
        (distinct used \<longrightarrow> distinct (used @ ys)) \<and> set ys \<subseteq> {..<length gts}"
proof (induction ps arbitrary: c used)
  case Nil
  then show ?case by simp
next
  case (Cons p ps)
  show ?case
  proof (cases "spec_first_fit gts (set used) p")
    case None
    with Cons.IH [of c used] show ?thesis
      by (auto simp: scan_gt_boxes_first_fit)
  next
    case (Some i)
    note ff = spec_first_fit_Some [OF Some]
    from Cons.IH [of "c + 1" "used @ [i]"] obtain ys where
      ys: "match_pred_boxes ps gts (c + 1, used @ [i]) =
             Inr (c + 1 + int (spec_greedy gts ps (set (used @ [i]))), (used @ [i]) @ ys)"
        "length ys = spec_greedy gts ps (set (used @ [i]))" "length ys \<le> length ps"
        "distinct (used @ [i]) \<longrightarrow> distinct ((used @ [i]) @ ys)" "set ys \<subseteq> {..<length gts}"
      by blast
    have "match_pred_boxes (p # ps) gts (c, used) =
            Inr (c + int (spec_greedy gts (p # ps) (set used)), used @ (i # ys))"
      using Some ys(1) by (simp add: scan_gt_boxes_first_fit)
    moreover have "length (i # ys) = spec_greedy gts (p # ps) (set used)"
      using Some ys(2) by simp
    moreover have "length (i # ys) \<le> length (p # ps)" using ys(3) by simp
    moreover have "distinct used \<longrightarrow> distinct (used @ (i # ys))"
      using ys(4) ff(2) by auto
    moreover have "set (i # ys) \<subseteq> {..<length gts}" using ys(5) ff(1) by simp
    ultimately show ?thesis by blast
  qed
qed

lemma match_pred_boxes_append:
  "match_pred_boxes (ps @ qs) gts st =
     (case match_pred_boxes ps gts st of Inl e \<Rightarrow> Inl e | Inr st' \<Rightarrow> match_pred_boxes qs gts st')"
  by (induction ps arbitrary: st) (auto split: sum.splits)

lemma tag_matches_eq: "tag_matches et = (\<lambda>box. lower (tag box) = lower et)"
  by (rule ext) (simp add: tag_matches_def)

lemma count_correct_predictions_eq:
  "count_correct_predictions gt pred et = Inr (spec_match gt pred et)"
proof -
  let ?g = "filter (\<lambda>box. lower (tag box) = lower et) gt"
  let ?p = "filter (\<lambda>box. lower (tag box) = lower et) pred"
  from match_pred_boxes_greedy [of ?p ?g 0 "[]"] obtain ys where
    "match_pred_boxes ?p ?g (0, []) = Inr (int (spec_greedy ?g ?p {}), ys)"
    by auto
  then show ?thesis
    by (simp add: count_correct_predictions_def spec_match_def tag_matches_eq Let_def)
qed


lemma scan_gt_boxes_step:
  "scan_gt_boxes p (enumerate 0 gts) (c, used) = Inr (c, used) \<or>
   (\<exists>i. i < length gts \<and> i \<notin> set used \<and>
        scan_gt_boxes p (enumerate 0 gts) (c, used) = Inr (c + 1, used @ [i]))"
proof (cases "spec_first_fit gts (set used) p")
  case None
  then show ?thesis by (simp add: scan_gt_boxes_first_fit)
next
  case (Some i)
  from spec_first_fit_Some [OF Some] Some show ?thesis
    by (simp add: scan_gt_boxes_first_fit)
qed



text \<open>
  C3: the matching is at most one-to-one. The indices recorded by the loops are distinct
  indices of ground-truth boxes, one for each counted match, so a ground-truth box is
  consumed by at most one predicted box; the scan for one predicted box leaves the state
  unchanged or consumes exactly one index that was not consumed before, so a predicted box
  consumes at most one ground-truth box; and the returned count of correct matches is at
  most the smaller of the two returned box counts.
\<close>

theorem matching_at_most_one_to_one:
  "(\<exists>correct_count used_gt_boxes.
      match_pred_boxes pred_boxes gt_boxes (0, []) = Inr (correct_count, used_gt_boxes) \<and>
      distinct used_gt_boxes \<and> set used_gt_boxes \<subseteq> {..<length gt_boxes} \<and>
      correct_count = int (length used_gt_boxes) \<and>
      length used_gt_boxes \<le> length pred_boxes) \<and>
   (\<exists>st'. scan_gt_boxes pred_box (enumerate 0 gt_boxes) (c, used) = Inr st' \<and>
      (st' = (c, used) \<or>
       (\<exists>i. i < length gt_boxes \<and> i \<notin> set used \<and> st' = (c + 1, used @ [i])))) \<and>
   (\<exists>gt_count pred_count correct_count.
      count_correct_predictions ground_truth_boxes predicted_boxes element_type =
        Inr (gt_count, pred_count, correct_count) \<and>
      0 \<le> correct_count \<and> correct_count \<le> min gt_count pred_count)"
proof (intro conjI)
  from match_pred_boxes_greedy [of pred_boxes gt_boxes 0 "[]"]
  show "\<exists>correct_count used_gt_boxes.
      match_pred_boxes pred_boxes gt_boxes (0, []) = Inr (correct_count, used_gt_boxes) \<and>
      distinct used_gt_boxes \<and> set used_gt_boxes \<subseteq> {..<length gt_boxes} \<and>
      correct_count = int (length used_gt_boxes) \<and>
      length used_gt_boxes \<le> length pred_boxes"
    by auto
next
  from scan_gt_boxes_step [of pred_box gt_boxes c used]
  show "\<exists>st'. scan_gt_boxes pred_box (enumerate 0 gt_boxes) (c, used) = Inr st' \<and>
      (st' = (c, used) \<or>
       (\<exists>i. i < length gt_boxes \<and> i \<notin> set used \<and> st' = (c + 1, used @ [i])))"
    by auto
next
  let ?g = "filter (\<lambda>box. lower (tag box) = lower element_type) ground_truth_boxes"
  let ?p = "filter (\<lambda>box. lower (tag box) = lower element_type) predicted_boxes"
  from match_pred_boxes_greedy [of ?p ?g 0 "[]"] obtain ys where
    m: "match_pred_boxes ?p ?g (0, []) = Inr (int (length ys), ys)"
    and len: "length ys \<le> length ?p"
    and dist: "distinct ys" and sub: "set ys \<subseteq> {..<length ?g}"
    by auto
  from dist sub have "card (set ys) \<le> card {..<length ?g}"
    by (intro card_mono) simp_all
  with dist have "length ys \<le> length ?g" by (simp add: distinct_card)
  with len m show "\<exists>gt_count pred_count correct_count.
      count_correct_predictions ground_truth_boxes predicted_boxes element_type =
        Inr (gt_count, pred_count, correct_count) \<and>
      0 \<le> correct_count \<and> correct_count \<le> min gt_count pred_count"
    by (simp add: count_correct_predictions_def Let_def)
qed

text \<open>
  C9: appending one box to the end of the predictions never decreases the count of
  correct matches, leaves the ground-truth count as it is, and increases the prediction
  count by one when the tag of the new box equals the element type up to case, and by
  zero otherwise.
\<close>

theorem append_predicted_box:
  "\<exists>gt_count pred_count correct_count correct_count'.
     count_correct_predictions ground_truth_boxes predicted_boxes element_type =
       Inr (gt_count, pred_count, correct_count) \<and>
     count_correct_predictions ground_truth_boxes (predicted_boxes @ [new_box]) element_type =
       Inr (gt_count,
            pred_count + (if lower (tag new_box) = lower element_type then 1 else 0),
            correct_count') \<and>
     correct_count \<le> correct_count'"
proof -
  let ?g = "filter (\<lambda>box. lower (tag box) = lower element_type) ground_truth_boxes"
  let ?p = "filter (\<lambda>box. lower (tag box) = lower element_type) predicted_boxes"
  from match_pred_boxes_greedy [of ?p ?g 0 "[]"] obtain c used where
    m: "match_pred_boxes ?p ?g (0, []) = Inr (c, used)"
    by auto
  show ?thesis
  proof (cases "lower (tag new_box) = lower element_type")
    case False
    with m show ?thesis
      by (simp add: count_correct_predictions_def Let_def)
  next
    case True
    from scan_gt_boxes_step [of new_box ?g c used] obtain c' used' where
      s: "scan_gt_boxes new_box (enumerate 0 ?g) (c, used) = Inr (c', used')" and le: "c \<le> c'"
      by auto
    have "match_pred_boxes (?p @ [new_box]) ?g (0, []) = Inr (c', used')"
      using m s by (simp add: match_pred_boxes_append)
    with m True le show ?thesis
      by (simp add: count_correct_predictions_def Let_def)
  qed
qed

section \<open>Properties of the totals and the scores\<close>

lemma count_file_closed:
  assumes "distinct ets" and "set ets \<subseteq> dom results"
  shows "count_file g p ets results =
           Inr (\<lambda>k. if k \<in> set ets
                     then map_option
                       (\<lambda>t. \<lparr>ground_truth_total = ground_truth_total t + fst (spec_match g p k),
                             predicted_total = predicted_total t + fst (snd (spec_match g p k)),
                             correct_total = correct_total t + snd (snd (spec_match g p k))\<rparr>)
                       (results k)
                     else results k)"
  using assms
proof (induction ets arbitrary: results)
  case Nil
  then show ?case by simp
next
  case (Cons et ets)
  from Cons.prems obtain t where t: "results et = Some t" by auto
  obtain gc pc cc where m: "spec_match g p et = (gc, pc, cc)" by (cases "spec_match g p et")
  define results' where
    "results' = results(et \<mapsto> \<lparr>ground_truth_total = ground_truth_total t + gc,
                     predicted_total = predicted_total t + pc,
                     correct_total = correct_total t + cc\<rparr>)"
  have step: "count_file g p (et # ets) results = count_file g p ets results'"
    by (simp add: count_correct_predictions_eq m t results'_def)
  have "distinct ets" "set ets \<subseteq> dom results'"
    using Cons.prems by (auto simp: results'_def)
  from Cons.IH [OF this] have ih: "count_file g p ets results' =
           Inr (\<lambda>k. if k \<in> set ets
                     then map_option
                       (\<lambda>t. \<lparr>ground_truth_total = ground_truth_total t + fst (spec_match g p k),
                             predicted_total = predicted_total t + fst (snd (spec_match g p k)),
                             correct_total = correct_total t + snd (snd (spec_match g p k))\<rparr>)
                       (results' k)
                     else results' k)" .
  have "et \<notin> set ets" using Cons.prems by simp
  then show ?case
    unfolding step ih by (auto simp: results'_def fun_eq_iff m t)
qed

lemma distinct_element_types: "distinct element_types"
  by (simp add: element_types_def)

lemma spec_totals_Nil:
  "spec_totals [] k = \<lparr>ground_truth_total = 0, predicted_total = 0, correct_total = 0\<rparr>"
  by (simp add: spec_totals_def)

lemma spec_totals_Cons:
  "spec_totals ((g, p) # pairs) k =
     \<lparr>ground_truth_total = fst (spec_match g p k) + ground_truth_total (spec_totals pairs k),
      predicted_total = fst (snd (spec_match g p k)) + predicted_total (spec_totals pairs k),
      correct_total = snd (snd (spec_match g p k)) + correct_total (spec_totals pairs k)\<rparr>"
  by (simp add: spec_totals_def)

lemma totals_eta:
  "\<lparr>ground_truth_total = ground_truth_total t, predicted_total = predicted_total t,
    correct_total = correct_total t\<rparr> = (t :: totals)"
  by (cases t) simp

lemma process_files_closed:
  assumes "set element_types \<subseteq> dom results"
  shows "process_files pred_dir fs results =
           Inr (\<lambda>k. if k \<in> set element_types
                     then map_option
                       (\<lambda>t. \<lparr>ground_truth_total = ground_truth_total t +
                               ground_truth_total (spec_totals (file_pairs pred_dir fs) k),
                             predicted_total = predicted_total t +
                               predicted_total (spec_totals (file_pairs pred_dir fs) k),
                             correct_total = correct_total t +
                               correct_total (spec_totals (file_pairs pred_dir fs) k)\<rparr>)
                       (results k)
                     else results k)"
  using assms
proof (induction fs arbitrary: results)
  case Nil
  show ?case by (auto simp: fun_eq_iff spec_totals_Nil totals_eta option.map_ident)
next
  case (Cons f fs)
  obtain filename g where f: "f = (filename, g)" by (cases f)
  show ?case
  proof (cases "pred_dir filename")
    case None
    have pf: "process_files pred_dir (f # fs) results = process_files pred_dir fs results"
      by (simp add: f None)
    have fp: "file_pairs pred_dir (f # fs) = file_pairs pred_dir fs"
      by (simp add: f None)
    show ?thesis unfolding pf fp by (rule Cons.IH [OF Cons.prems])
  next
    case (Some p)
    define results' where "results' =
      (\<lambda>k. if k \<in> set element_types
            then map_option
              (\<lambda>t. \<lparr>ground_truth_total = ground_truth_total t + fst (spec_match g p k),
                    predicted_total = predicted_total t + fst (snd (spec_match g p k)),
                    correct_total = correct_total t + snd (snd (spec_match g p k))\<rparr>)
              (results k)
            else results k)"
    have cf: "count_file g p element_types results = Inr results'"
      unfolding results'_def
      by (rule count_file_closed [OF distinct_element_types Cons.prems])
    have "set element_types \<subseteq> dom results'"
      using Cons.prems by (auto simp: results'_def dom_def)
    note ih = Cons.IH [OF this]
    have fp: "file_pairs pred_dir (f # fs) = (g, p) # file_pairs pred_dir fs"
      by (simp add: f Some)
    have "process_files pred_dir (f # fs) results = process_files pred_dir fs results'"
      by (simp add: f Some cf)
    also note ih
    finally show ?thesis
      unfolding fp
      by (auto simp: results'_def fun_eq_iff spec_totals_Cons option.map_comp
          comp_def add.assoc cong del: if_weak_cong)
  qed
qed

lemma init_results_eq:
  "init_results =
     (\<lambda>k. if k \<in> set element_types
           then Some \<lparr>ground_truth_total = 0, predicted_total = 0, correct_total = 0\<rparr>
           else None)"
  by (auto simp: init_results_def element_types_def fun_eq_iff)

lemma process_files_init:
  "process_files pred_dir fs init_results =
     Inr (\<lambda>k. if k \<in> set element_types then Some (spec_totals (file_pairs pred_dir fs) k)
               else None)"
proof -
  have "set element_types \<subseteq> dom init_results"
    by (auto simp: init_results_eq)
  from process_files_closed [OF this, of pred_dir fs] show ?thesis
    by (auto simp: init_results_eq fun_eq_iff)
qed

lemma calculate_scores_eq:
  "calculate_scores t = Inr (spec_precision t, spec_recall t, spec_f1 t)"
  by (simp add: calculate_scores_def Let_def truediv_def spec_precision_def spec_recall_def
      spec_f1_def)

lemma print_results_closed:
  assumes "\<And>et. et \<in> set ets \<Longrightarrow> results et = Some (T et)"
  shows "print_results ets results = Inr (map (\<lambda>et. spec_block et (T et)) ets)"
  using assms
  by (induction ets) (simp_all add: calculate_scores_eq spec_block_def)

lemma main_eq: "main gt_dir pred_dir = Inr (spec_aggregate gt_dir pred_dir)"
  unfolding main_def process_files_init spec_aggregate_def
  by (simp add: print_results_closed)


lemma mset_file_pairs:
  "mset (file_pairs pred_dir fs) =
     image_mset (\<lambda>(filename, g). (g, the (pred_dir filename)))
       (filter_mset (\<lambda>(filename, g). pred_dir filename \<noteq> None) (mset fs))"
  by (induction fs) (auto split: option.splits)

lemma file_pairs_mset_cong:
  assumes "mset fs = mset fs'"
  shows "mset (file_pairs pred_dir fs) = mset (file_pairs pred_dir fs')"
  by (simp add: mset_file_pairs assms)

lemma sum_list_map_mset_cong:
  fixes f :: "'a \<Rightarrow> int"
  assumes "mset xs = mset ys"
  shows "sum_list (map f xs) = sum_list (map f ys)"
proof -
  have "sum_list (map f xs) = sum_mset (image_mset f (mset xs))"
    by (simp add: sum_mset_sum_list [symmetric])
  also have "\<dots> = sum_mset (image_mset f (mset ys))" by (simp add: assms)
  also have "\<dots> = sum_list (map f ys)" by (simp add: sum_mset_sum_list [symmetric])
  finally show ?thesis .
qed

lemma spec_totals_mset_cong:
  assumes "mset pairs = mset pairs'"
  shows "spec_totals pairs k = spec_totals pairs' k"
  unfolding spec_totals_def
  by (simp add: sum_list_map_mset_cong [OF assms])

lemma json_files_mset_cong:
  assumes "mset fs = mset fs'"
  shows "mset (json_files fs) = mset (json_files fs')"
  by (simp add: json_files_def assms)

text \<open>
  C5: the final totals of every element type do not depend on the order in which the
  files are processed: two listings of the same files give the same dictionary of totals
  (and so the same report), and each total is the sum of the counts of the files.
\<close>

theorem totals_independent_of_file_order:
  assumes "mset gt_files = mset gt_files'"
  shows "(\<exists>results.
            process_files pred_dir gt_files init_results = Inr results \<and>
            process_files pred_dir gt_files' init_results = Inr results \<and>
            results = (\<lambda>k. if k \<in> set element_types
                            then Some (spec_totals (file_pairs pred_dir gt_files) k)
                            else None)) \<and>
         process_files pred_dir (json_files gt_files) init_results =
           process_files pred_dir (json_files gt_files') init_results \<and>
         main gt_files pred_dir = main gt_files' pred_dir"
proof -
  have eq: "spec_totals (file_pairs pred_dir fs) k = spec_totals (file_pairs pred_dir fs') k"
    if "mset fs = mset fs'" for fs fs' k
    by (rule spec_totals_mset_cong [OF file_pairs_mset_cong [OF that]])
  have a: "process_files pred_dir fs init_results = process_files pred_dir fs' init_results"
    if "mset fs = mset fs'" for fs fs'
    unfolding process_files_init by (simp add: eq [OF that] cong del: if_weak_cong)
  have j: "mset (json_files gt_files) = mset (json_files gt_files')"
    by (rule json_files_mset_cong [OF assms])
  show ?thesis
  proof (intro conjI)
    show "\<exists>results.
            process_files pred_dir gt_files init_results = Inr results \<and>
            process_files pred_dir gt_files' init_results = Inr results \<and>
            results = (\<lambda>k. if k \<in> set element_types
                            then Some (spec_totals (file_pairs pred_dir gt_files) k)
                            else None)"
      using a [OF assms] by (simp add: process_files_init)
    show "process_files pred_dir (json_files gt_files) init_results =
           process_files pred_dir (json_files gt_files') init_results"
      by (rule a [OF j])
    then show "main gt_files pred_dir = main gt_files' pred_dir"
      by (simp add: main_def)
  qed
qed

theorem totals_independent_of_file_order_witness:
  "process_files
     [''a.json'' \<mapsto> [\<lparr>tag = ''button'', x1 = 5, y1 = 5, x2 = 95, y2 = 45\<rparr>],
      ''b.json'' \<mapsto> [\<lparr>tag = ''Button'', x1 = 50, y1 = 50, x2 = 60, y2 = 60\<rparr>,
                      \<lparr>tag = ''Radio'', x1 = 0, y1 = 0, x2 = 4, y2 = 4\<rparr>]]
     [(''a.json'', [\<lparr>tag = ''Button'', x1 = 0, y1 = 0, x2 = 100, y2 = 50\<rparr>]),
      (''b.json'', [\<lparr>tag = ''button'', x1 = 0, y1 = 0, x2 = 10, y2 = 10\<rparr>])]
     init_results =
   process_files
     [''a.json'' \<mapsto> [\<lparr>tag = ''button'', x1 = 5, y1 = 5, x2 = 95, y2 = 45\<rparr>],
      ''b.json'' \<mapsto> [\<lparr>tag = ''Button'', x1 = 50, y1 = 50, x2 = 60, y2 = 60\<rparr>,
                      \<lparr>tag = ''Radio'', x1 = 0, y1 = 0, x2 = 4, y2 = 4\<rparr>]]
     [(''b.json'', [\<lparr>tag = ''button'', x1 = 0, y1 = 0, x2 = 10, y2 = 10\<rparr>]),
      (''a.json'', [\<lparr>tag = ''Button'', x1 = 0, y1 = 0, x2 = 100, y2 = 50\<rparr>])]
     init_results \<and>
   (case process_files
     [''a.json'' \<mapsto> [\<lparr>tag = ''button'', x1 = 5, y1 = 5, x2 = 95, y2 = 45\<rparr>],
      ''b.json'' \<mapsto> [\<lparr>tag = ''Button'', x1 = 50, y1 = 50, x2 = 60, y2 = 60\<rparr>,
                      \<lparr>tag = ''Radio'', x1 = 0, y1 = 0, x2 = 4, y2 = 4\<rparr>]]
     [(''b.json'', [\<lparr>tag = ''button'', x1 = 0, y1 = 0, x2 = 10, y2 = 10\<rparr>]),
      (''a.json'', [\<lparr>tag = ''Button'', x1 = 0, y1 = 0, x2 = 100, y2 = 50\<rparr>])]
     init_results of
      Inl e \<Rightarrow> None
    | Inr results \<Rightarrow> results ''button'') =
     Some \<lparr>ground_truth_total = 2, predicted_total = 2, correct_total = 1\<rparr>"
proof -
  have m: "mset [(''a.json'', [\<lparr>tag = ''Button'', x1 = 0, y1 = 0, x2 = 100, y2 = 50\<rparr>]),
             (''b.json'', [\<lparr>tag = ''button'', x1 = 0, y1 = 0, x2 = 10, y2 = 10\<rparr>])] =
           mset [(''b.json'', [\<lparr>tag = ''button'', x1 = 0, y1 = 0, x2 = 10, y2 = 10\<rparr>]),
             (''a.json'', [\<lparr>tag = ''Button'', x1 = 0, y1 = 0, x2 = 100, y2 = 50\<rparr>])]"
    by simp
  have v: "(case process_files
     [''a.json'' \<mapsto> [\<lparr>tag = ''button'', x1 = 5, y1 = 5, x2 = 95, y2 = 45\<rparr>],
      ''b.json'' \<mapsto> [\<lparr>tag = ''Button'', x1 = 50, y1 = 50, x2 = 60, y2 = 60\<rparr>,
                      \<lparr>tag = ''Radio'', x1 = 0, y1 = 0, x2 = 4, y2 = 4\<rparr>]]
     [(''b.json'', [\<lparr>tag = ''button'', x1 = 0, y1 = 0, x2 = 10, y2 = 10\<rparr>]),
      (''a.json'', [\<lparr>tag = ''Button'', x1 = 0, y1 = 0, x2 = 100, y2 = 50\<rparr>])]
     init_results of
      Inl e \<Rightarrow> None
    | Inr results \<Rightarrow> results ''button'') =
     Some \<lparr>ground_truth_total = 2, predicted_total = 2, correct_total = 1\<rparr>"
    by code_simp
  from totals_independent_of_file_order [OF m,
      of "[''a.json'' \<mapsto> [\<lparr>tag = ''button'', x1 = 5, y1 = 5, x2 = 95, y2 = 45\<rparr>],
           ''b.json'' \<mapsto> [\<lparr>tag = ''Button'', x1 = 50, y1 = 50, x2 = 60, y2 = 60\<rparr>,
                      \<lparr>tag = ''Radio'', x1 = 0, y1 = 0, x2 = 4, y2 = 4\<rparr>]]"]
  have "process_files
     [''a.json'' \<mapsto> [\<lparr>tag = ''button'', x1 = 5, y1 = 5, x2 = 95, y2 = 45\<rparr>],
      ''b.json'' \<mapsto> [\<lparr>tag = ''Button'', x1 = 50, y1 = 50, x2 = 60, y2 = 60\<rparr>,
                      \<lparr>tag = ''Radio'', x1 = 0, y1 = 0, x2 = 4, y2 = 4\<rparr>]]
     [(''a.json'', [\<lparr>tag = ''Button'', x1 = 0, y1 = 0, x2 = 100, y2 = 50\<rparr>]),
      (''b.json'', [\<lparr>tag = ''button'', x1 = 0, y1 = 0, x2 = 10, y2 = 10\<rparr>])]
     init_results =
   process_files
     [''a.json'' \<mapsto> [\<lparr>tag = ''button'', x1 = 5, y1 = 5, x2 = 95, y2 = 45\<rparr>],
      ''b.json'' \<mapsto> [\<lparr>tag = ''Button'', x1 = 50, y1 = 50, x2 = 60, y2 = 60\<rparr>,
                      \<lparr>tag = ''Radio'', x1 = 0, y1 = 0, x2 = 4, y2 = 4\<rparr>]]
     [(''b.json'', [\<lparr>tag = ''button'', x1 = 0, y1 = 0, x2 = 10, y2 = 10\<rparr>]),
      (''a.json'', [\<lparr>tag = ''Button'', x1 = 0, y1 = 0, x2 = 100, y2 = 50\<rparr>])]
     init_results"
    by (elim conjE exE) (simp only:)
  from this v show ?thesis by (rule conjI)
qed

lemma spec_match_absent:
  assumes "\<And>b. b \<in> set g \<union> set p \<Longrightarrow> \<not> tag_matches category b"
  shows "spec_match g p category = (0, 0, 0)"
proof -
  have "filter (tag_matches category) g = []" "filter (tag_matches category) p = []"
    using assms by (auto simp: filter_empty_conv)
  then show ?thesis by (simp add: spec_match_def)
qed

lemma sum_list_map_zero:
  fixes f :: "'a \<Rightarrow> int"
  assumes "\<And>x. x \<in> set xs \<Longrightarrow> f x = 0"
  shows "sum_list (map f xs) = 0"
  using assms by (induction xs) simp_all

lemma spec_totals_absent:
  assumes "\<And>g p b. (g, p) \<in> set pairs \<Longrightarrow> b \<in> set g \<union> set p \<Longrightarrow> \<not> tag_matches category b"
  shows "spec_totals pairs category =
           \<lparr>ground_truth_total = 0, predicted_total = 0, correct_total = 0\<rparr>"
proof -
  have "spec_match g p category = (0, 0, 0)" if "(g, p) \<in> set pairs" for g p
    using assms [OF that] by (intro spec_match_absent) blast
  then show ?thesis
    unfolding spec_totals_def by (auto intro!: sum_list_map_zero)
qed

text \<open>
  C2: \<open>main\<close> never raises and reports, for each element type in the fixed order, the
  final totals with precision = correct / predicted if predicted > 0 else 0, recall =
  correct / ground truth if ground truth > 0 else 0, and F1 = 2 * precision * recall /
  (precision + recall) if precision + recall > 0 else 0. For an element type that no box
  of any processed file carries, the three totals and the three scores are all 0.
\<close>

theorem main_scores:
  "\<exists>blocks.
     main gt_dir pred_dir = Inr blocks \<and>
     blocks = spec_aggregate gt_dir pred_dir \<and>
     map element blocks = element_types \<and>
     (\<forall>b \<in> set blocks.
        precision b = (if pred_total b > 0 then of_int (correct b) / of_int (pred_total b) else 0) \<and>
        recall b = (if gt_total b > 0 then of_int (correct b) / of_int (gt_total b) else 0) \<and>
        f1_score b = (if precision b + recall b > 0
                      then 2 * precision b * recall b / (precision b + recall b) else 0)) \<and>
     (category \<in> set element_types \<and>
      (\<forall>(g, p) \<in> set (file_pairs pred_dir (json_files gt_dir)).
         \<forall>b \<in> set g \<union> set p. lower (tag b) \<noteq> lower category)
      \<longrightarrow> \<lparr>element = category, gt_total = 0, pred_total = 0, correct = 0,
            precision = 0, recall = 0, f1_score = 0\<rparr> \<in> set blocks)"
proof (intro exI conjI impI)
  show "main gt_dir pred_dir = Inr (spec_aggregate gt_dir pred_dir)" by (rule main_eq)
  show "spec_aggregate gt_dir pred_dir = spec_aggregate gt_dir pred_dir" ..
  show "map element (spec_aggregate gt_dir pred_dir) = element_types"
    by (simp add: spec_aggregate_def spec_block_def comp_def)
  show "\<forall>b \<in> set (spec_aggregate gt_dir pred_dir).
        precision b = (if pred_total b > 0 then of_int (correct b) / of_int (pred_total b) else 0) \<and>
        recall b = (if gt_total b > 0 then of_int (correct b) / of_int (gt_total b) else 0) \<and>
        f1_score b = (if precision b + recall b > 0
                      then 2 * precision b * recall b / (precision b + recall b) else 0)"
    by (auto simp: spec_aggregate_def spec_block_def spec_precision_def spec_recall_def
        spec_f1_def)
next
  assume a: "category \<in> set element_types \<and>
      (\<forall>(g, p) \<in> set (file_pairs pred_dir (json_files gt_dir)).
         \<forall>b \<in> set g \<union> set p. lower (tag b) \<noteq> lower category)"
  then have "spec_totals (file_pairs pred_dir (json_files gt_dir)) category =
           \<lparr>ground_truth_total = 0, predicted_total = 0, correct_total = 0\<rparr>"
    by (intro spec_totals_absent) (auto simp: tag_matches_def)
  then have "spec_block category (spec_totals (file_pairs pred_dir (json_files gt_dir)) category) =
      \<lparr>element = category, gt_total = 0, pred_total = 0, correct = 0,
            precision = 0, recall = 0, f1_score = 0\<rparr>"
    by (simp add: spec_block_def spec_precision_def spec_recall_def spec_f1_def)
  with a show "\<lparr>element = category, gt_total = 0, pred_total = 0, correct = 0,
            precision = 0, recall = 0, f1_score = 0\<rparr> \<in> set (spec_aggregate gt_dir pred_dir)"
    unfolding spec_aggregate_def by (metis (no_types, lifting) image_eqI list.set_map)
qed

theorem main_scores_witness:
  "main
     [(''a.json'', [\<lparr>tag = ''Button'', x1 = 0, y1 = 0, x2 = 100, y2 = 50\<rparr>,
                    \<lparr>tag = ''Input'', x1 = 0, y1 = 60, x2 = 100, y2 = 80\<rparr>]),
      (''notes.txt'', []),
      (''c.json'', [\<lparr>tag = ''Dropdown'', x1 = 0, y1 = 0, x2 = 10, y2 = 10\<rparr>])]
     [''a.json'' \<mapsto> [\<lparr>tag = ''button'', x1 = 5, y1 = 5, x2 = 95, y2 = 45\<rparr>,
                      \<lparr>tag = ''button'', x1 = 200, y1 = 5, x2 = 295, y2 = 45\<rparr>]] =
   Inr [\<lparr>element = ''button'', gt_total = 1, pred_total = 2, correct = 1,
          precision = 1 / 2, recall = 1, f1_score = 2 / 3\<rparr>,
        \<lparr>element = ''input'', gt_total = 1, pred_total = 0, correct = 0,
          precision = 0, recall = 0, f1_score = 0\<rparr>,
        \<lparr>element = ''radio'', gt_total = 0, pred_total = 0, correct = 0,
          precision = 0, recall = 0, f1_score = 0\<rparr>,
        \<lparr>element = ''dropdown'', gt_total = 0, pred_total = 0, correct = 0,
          precision = 0, recall = 0, f1_score = 0\<rparr>] \<and>
   \<lparr>element = ''radio'', gt_total = 0, pred_total = 0, correct = 0,
     precision = 0, recall = 0, f1_score = 0\<rparr> \<in> set (spec_aggregate
     [(''a.json'', [\<lparr>tag = ''Button'', x1 = 0, y1 = 0, x2 = 100, y2 = 50\<rparr>,
                    \<lparr>tag = ''Input'', x1 = 0, y1 = 60, x2 = 100, y2 = 80\<rparr>]),
      (''notes.txt'', []),
      (''c.json'', [\<lparr>tag = ''Dropdown'', x1 = 0, y1 = 0, x2 = 10, y2 = 10\<rparr>])]
     [''a.json'' \<mapsto> [\<lparr>tag = ''button'', x1 = 5, y1 = 5, x2 = 95, y2 = 45\<rparr>,
                      \<lparr>tag = ''button'', x1 = 200, y1 = 5, x2 = 295, y2 = 45\<rparr>]])"
proof -
  let ?G = "[(''a.json'', [\<lparr>tag = ''Button'', x1 = 0, y1 = 0, x2 = 100, y2 = 50\<rparr>,
                    \<lparr>tag = ''Input'', x1 = 0, y1 = 60, x2 = 100, y2 = 80\<rparr>]),
      (''notes.txt'', []),
      (''c.json'', [\<lparr>tag = ''Dropdown'', x1 = 0, y1 = 0, x2 = 10, y2 = 10\<rparr>])]"
  let ?P = "[''a.json'' \<mapsto> [\<lparr>tag = ''button'', x1 = 5, y1 = 5, x2 = 95, y2 = 45\<rparr>,
                      \<lparr>tag = ''button'', x1 = 200, y1 = 5, x2 = 295, y2 = 45\<rparr>]]"
  have v: "main ?G ?P =
   Inr [\<lparr>element = ''button'', gt_total = 1, pred_total = 2, correct = 1,
          precision = 1 / 2, recall = 1, f1_score = 2 / 3\<rparr>,
        \<lparr>element = ''input'', gt_total = 1, pred_total = 0, correct = 0,
          precision = 0, recall = 0, f1_score = 0\<rparr>,
        \<lparr>element = ''radio'', gt_total = 0, pred_total = 0, correct = 0,
          precision = 0, recall = 0, f1_score = 0\<rparr>,
        \<lparr>element = ''dropdown'', gt_total = 0, pred_total = 0, correct = 0,
          precision = 0, recall = 0, f1_score = 0\<rparr>]"
    by code_simp
  have h: "''radio'' \<in> set element_types \<and>
      (\<forall>(g, p) \<in> set (file_pairs ?P (json_files ?G)).
         \<forall>b \<in> set g \<union> set p. lower (tag b) \<noteq> lower ''radio'')"
    by code_simp
  from main_scores [of ?G ?P "''radio''"] obtain blocks where
    b: "blocks = spec_aggregate ?G ?P" and
    imp: "''radio'' \<in> set element_types \<and>
      (\<forall>(g, p) \<in> set (file_pairs ?P (json_files ?G)).
         \<forall>b \<in> set g \<union> set p. lower (tag b) \<noteq> lower ''radio'')
      \<longrightarrow> \<lparr>element = ''radio'', gt_total = 0, pred_total = 0, correct = 0,
            precision = 0, recall = 0, f1_score = 0\<rparr> \<in> set blocks"
    by (elim exE conjE)
  from imp h have "\<lparr>element = ''radio'', gt_total = 0, pred_total = 0, correct = 0,
            precision = 0, recall = 0, f1_score = 0\<rparr> \<in> set blocks"
    by (rule mp)
  then have "\<lparr>element = ''radio'', gt_total = 0, pred_total = 0, correct = 0,
            precision = 0, recall = 0, f1_score = 0\<rparr> \<in> set (spec_aggregate ?G ?P)"
    unfolding b .
  with v show ?thesis by (rule conjI)
qed

end
